theory Spec2Isabelle
  imports Complex_Main
begin

section \<open>Data model\<close>

text \<open>
  A pandas frame is an ordered sequence of named columns whose rows correspond by
  position.  A float cell is either a number or NaN; NaN is \<open>None\<close>.  Numbers are
  exact reals: rounding, overflow and infinities of IEEE doubles are outside the model.
  Two column kinds are enough for \<open>analyzer.py\<close>: the columns that
  \<open>select_dtypes(include=[np.number])\<close> keeps and the \<open>object\<close>/\<open>category\<close> ones, whose
  cells are text.  A column label is a string or, as in a frame read with
  \<open>header=None\<close>, an integer; pandas allows a label to be repeated.  All columns of
  a frame have the same length.
\<close>

type_synonym cell = "real option"

datatype column = Numeric "cell list" | Categorical "string option list"

datatype label = Str string | IntLabel int

type_synonym dataset = "(label \<times> column) list"

fun is_str :: "label \<Rightarrow> bool" where
  "is_str (Str s) = True"
| "is_str (IntLabel i) = False"

datatype error = KeyError string | ValueError string | TypeError string | IndexError string

fun col_len :: "column \<Rightarrow> nat" where
  "col_len (Numeric xs) = length xs"
| "col_len (Categorical xs) = length xs"

text \<open>\<open>len(df)\<close>: the length of the index, which every column shares.\<close>

fun len_df :: "dataset \<Rightarrow> nat" where
  "len_df [] = 0"
| "len_df ((name, c) # cs) = col_len c"

text \<open>A frame with pairwise different labels and columns of one length.\<close>

definition wf_dataset :: "dataset \<Rightarrow> bool" where
  "wf_dataset df \<longleftrightarrow>
     distinct (map fst df) \<and> list_all (\<lambda>(name, c). col_len c = len_df df) df"

text \<open>\<open>df.select_dtypes(include=[np.number])\<close>, with the cells of each column kept.\<close>

fun select_numeric :: "dataset \<Rightarrow> (label \<times> cell list) list" where
  "select_numeric [] = []"
| "select_numeric ((name, Numeric xs) # cs) = (name, xs) # select_numeric cs"
| "select_numeric ((name, Categorical xs) # cs) = select_numeric cs"

text \<open>The labels of \<open>df.select_dtypes(include=['object', 'category'])\<close>.\<close>

fun categorical_labels :: "dataset \<Rightarrow> label list" where
  "categorical_labels [] = []"
| "categorical_labels ((name, Numeric xs) # cs) = categorical_labels cs"
| "categorical_labels ((name, Categorical xs) # cs) = name # categorical_labels cs"

text \<open>\<open>Series.dropna()\<close>: the numbers of a column, in row order.\<close>

fun dropna :: "cell list \<Rightarrow> real list" where
  "dropna [] = []"
| "dropna (None # xs) = dropna xs"
| "dropna (Some v # xs) = v # dropna xs"

text \<open>
  \<open>df[col]\<close> for one of the three columns of \<open>segment_rfm\<close>, whose contract is three
  numeric columns: a missing name is a \<open>KeyError\<close>; a text column is not accepted by the
  quantile computation and is reported as a \<open>TypeError\<close>.
\<close>

definition getitem_numeric :: "dataset \<Rightarrow> string \<Rightarrow> error + cell list" where
  "getitem_numeric df name =
     (case map_of df (Str name) of
        None \<Rightarrow> Inl (KeyError name)
      | Some (Numeric xs) \<Rightarrow> Inr xs
      | Some (Categorical xs) \<Rightarrow> Inl (TypeError name))"

section \<open>The pandas routines used by \<open>segment_rfm\<close>\<close>

text \<open>
  \<open>Series.quantile\<close> with linear interpolation, at the point \<open>k / q\<close> of
  \<open>np.linspace(0, 1, q + 1)\<close>, on the sorted numbers \<open>s\<close>: the position is
  \<open>k / q * (len(s) - 1)\<close>, split here into its integer part and its fraction.
\<close>

definition quantile :: "real list \<Rightarrow> nat \<Rightarrow> nat \<Rightarrow> real" where
  "quantile s k q =
     (let h = k * (length s - 1); lo = h div q; r = h mod q
      in if r = 0 then s ! lo
         else s ! lo + (s ! Suc lo - s ! lo) * (real r / real q))"

text \<open>\<open>algos.unique\<close>: the different values in order of first appearance.\<close>

fun unique :: "real list \<Rightarrow> real list" where
  "unique [] = []"
| "unique (x # xs) = x # unique (filter (\<lambda>y. y \<noteq> x) xs)"

text \<open>\<open>bins.searchsorted(v, side='left')\<close> on increasing edges.\<close>

definition searchsorted_left :: "real list \<Rightarrow> real \<Rightarrow> nat" where
  "searchsorted_left bins v = length (takeWhile (\<lambda>b. b < v) bins)"

text \<open>
  One row of \<open>_bins_to_cuts(..., labels=False)\<close>: the id is 1 for the lowest edge when
  \<open>include_lowest\<close>, ids 0 and \<open>len(bins)\<close> and NaN cells are masked, the code is
  \<open>id - 1\<close>.
\<close>

definition bin_code :: "real list \<Rightarrow> bool \<Rightarrow> cell \<Rightarrow> int option" where
  "bin_code bins include_lowest c =
     (case c of
        None \<Rightarrow> None
      | Some v \<Rightarrow>
          (let ids = (if include_lowest \<and> v = hd bins then 1 else searchsorted_left bins v)
           in if ids = length bins \<or> ids = 0 then None else Some (int ids - 1)))"

text \<open>
  \<open>_bins_to_cuts\<close>: duplicate edges are dropped or rejected, except when there are
  exactly two edges.
\<close>

definition bins_to_cuts :: "cell list \<Rightarrow> real list \<Rightarrow> bool \<Rightarrow> bool \<Rightarrow> error + int option list" where
  "bins_to_cuts x bins include_lowest drop_duplicates =
     (let unique_bins = unique bins;
          dup = (length unique_bins < length bins \<and> length bins \<noteq> 2)
      in if dup \<and> \<not> drop_duplicates then Inl (ValueError ''Bin edges must be unique'')
         else Inr (map (bin_code (if dup then unique_bins else bins) include_lowest) x))"

text \<open>
  \<open>pd.qcut(x, q, labels=False, duplicates='drop')\<close>.  The edges are the quantiles of the
  numbers of \<open>x\<close>; without any number every edge is NaN and so is every code.  A negative
  \<open>q\<close> is rejected by \<open>np.linspace\<close> (or, at \<open>q = -1\<close>, by the read of the first edge).
\<close>

definition qcut :: "cell list \<Rightarrow> int \<Rightarrow> error + int option list" where
  "qcut x q =
     (if q < - 1 then Inl (ValueError ''Number of samples must be non-negative'')
      else if q = - 1 then Inl (IndexError ''index 0 is out of bounds'')
      else let s = sort (dropna x)
           in if s = [] then Inr (map (\<lambda>c. None) x)
              else bins_to_cuts x (map (\<lambda>k. quantile s k (nat q)) [0..<Suc (nat q)]) True True)"

text \<open>
  \<open>Series.rank(method='first')\<close>: ascending ranks from 1, equal values ranked in row
  order, NaN kept.
\<close>

definition rank_first :: "cell list \<Rightarrow> cell list" where
  "rank_first xs =
     map (\<lambda>i. case xs ! i of
                 None \<Rightarrow> None
               | Some v \<Rightarrow>
                   Some (real (Suc (length (filter
                     (\<lambda>j. case xs ! j of None \<Rightarrow> False | Some w \<Rightarrow> w < v \<or> (w = v \<and> j < i))
                     [0..<length xs])))))
         [0..<length xs]"

text \<open>\<open>np.linspace(a, b, n + 1, endpoint=True)\<close>.\<close>

definition linspace :: "real \<Rightarrow> real \<Rightarrow> nat \<Rightarrow> real list" where
  "linspace a b n = map (\<lambda>k. a + real k * ((b - a) / real n)) [0..<Suc n]"

text \<open>
  \<open>_nbins_to_bins\<close> for \<open>right=True\<close>: equal-width edges over the range of the data,
  the range widened by 0.1 percent on both sides when it is a point, the first edge
  lowered by 0.1 percent of the range otherwise.
\<close>

definition nbins_to_bins :: "real \<Rightarrow> real \<Rightarrow> nat \<Rightarrow> real list" where
  "nbins_to_bins mn mx nbins =
     (if mn = mx
      then linspace (mn - (if mn \<noteq> 0 then 0.001 * \<bar>mn\<bar> else 0.001))
                    (mx + (if mx \<noteq> 0 then 0.001 * \<bar>mx\<bar> else 0.001)) nbins
      else (let bins = linspace mn mx nbins
            in bins[0 := bins ! 0 - (mx - mn) * 0.001]))"

text \<open>
  \<open>pd.cut(x, bins=nbins, labels=False)\<close>.  When no cell is a number the range is NaN and
  so is every edge: \<open>_bins_to_cuts\<close> rejects them as duplicates unless there are two.
\<close>

definition cut_nbins :: "cell list \<Rightarrow> int \<Rightarrow> error + int option list" where
  "cut_nbins x nbins =
     (if nbins < 1 then Inl (ValueError ''`bins` should be a positive integer.'')
      else if x = [] then Inl (ValueError ''Cannot cut empty array'')
      else let vs = dropna x
           in if vs = []
              then (if nbins = 1 then Inr (map (\<lambda>c. None) x)
                    else Inl (ValueError ''Bin edges must be unique''))
              else bins_to_cuts x (nbins_to_bins (Min (set vs)) (Max (set vs)) (nat nbins))
                     False False)"

section \<open>\<open>Analyzer.segment_rfm\<close>\<close>

definition segment_labels :: "int \<rightharpoonup> string" where
  "segment_labels =
     [0 \<mapsto> ''Lost'', 1 \<mapsto> ''At Risk'', 2 \<mapsto> ''Potential Loyalist'',
      3 \<mapsto> ''Loyal Customer'', 4 \<mapsto> ''Champion'']"

text \<open>
  \<open>lambda x: segment_labels.get(min(x, 4), 'Other')\<close>.  For a NaN code \<open>min(x, 4)\<close> is
  NaN, which is no key of the table.
\<close>

definition segment_label :: "int option \<Rightarrow> string" where
  "segment_label x =
     (case x of
        None \<Rightarrow> ''Other''
      | Some i \<Rightarrow> (case segment_labels (min i 4) of Some l \<Rightarrow> l | None \<Rightarrow> ''Other''))"

text \<open>\<open>r_score = n_segments - 1 - r_quintiles\<close>, row by row.\<close>

definition r_scores :: "dataset \<Rightarrow> string \<Rightarrow> int \<Rightarrow> error + int option list" where
  "r_scores df r_col n_segments =
     (case getitem_numeric df r_col of
        Inl e \<Rightarrow> Inl e
      | Inr r \<Rightarrow>
          (case qcut r n_segments of
             Inl e \<Rightarrow> Inl e
           | Inr r_quintiles \<Rightarrow> Inr (map (map_option (\<lambda>b. n_segments - 1 - b)) r_quintiles)))"

text \<open>\<open>f_score\<close> and \<open>m_score\<close>: the quantile codes of the ranks.\<close>

definition fm_scores :: "dataset \<Rightarrow> string \<Rightarrow> int \<Rightarrow> error + int option list" where
  "fm_scores df col n_segments =
     (case getitem_numeric df col of
        Inl e \<Rightarrow> Inl e
      | Inr xs \<Rightarrow> qcut (rank_first xs) n_segments)"

fun add_scores :: "int option \<Rightarrow> int option \<Rightarrow> int option" where
  "add_scores (Some a) (Some b) = Some (a + b)"
| "add_scores a b = None"

text \<open>\<open>rfm_score = r_score + f_score + m_score\<close>.\<close>

definition rfm_scores :: "dataset \<Rightarrow> string \<Rightarrow> string \<Rightarrow> string \<Rightarrow> int \<Rightarrow> error + int option list" where
  "rfm_scores df r_col f_col m_col n_segments =
     (case r_scores df r_col n_segments of
        Inl e \<Rightarrow> Inl e
      | Inr r_score \<Rightarrow>
          (case fm_scores df f_col n_segments of
             Inl e \<Rightarrow> Inl e
           | Inr f_score \<Rightarrow>
               (case fm_scores df m_col n_segments of
                  Inl e \<Rightarrow> Inl e
                | Inr m_score \<Rightarrow>
                    Inr (map2 add_scores (map2 add_scores r_score f_score) m_score))))"

text \<open>\<open>segment_bins = pd.cut(rfm_score, bins=n_segments, labels=False)\<close>.\<close>

definition segment_bins :: "dataset \<Rightarrow> string \<Rightarrow> string \<Rightarrow> string \<Rightarrow> int \<Rightarrow> error + int option list" where
  "segment_bins df r_col f_col m_col n_segments =
     (case rfm_scores df r_col f_col m_col n_segments of
        Inl e \<Rightarrow> Inl e
      | Inr rfm_score \<Rightarrow> cut_nbins (map (map_option real_of_int) rfm_score) n_segments)"

definition segment_rfm :: "dataset \<Rightarrow> string \<Rightarrow> string \<Rightarrow> string \<Rightarrow> int \<Rightarrow> error + string list" where
  "segment_rfm df r_col f_col m_col n_segments =
     (case segment_bins df r_col f_col m_col n_segments of
        Inl e \<Rightarrow> Inl e
      | Inr bins \<Rightarrow> Inr (map segment_label bins))"

section \<open>Descriptive statistics\<close>

text \<open>\<open>Series.mean()\<close>: the mean of the numbers, NaN when there is none.\<close>

definition mean :: "cell list \<Rightarrow> cell" where
  "mean xs =
     (let vs = dropna xs
      in if vs = [] then None else Some (sum_list vs / real (length vs)))"

text \<open>Sum of the \<open>p\<close>-th powers of the deviations from the mean \<open>m\<close>.\<close>

definition dev_sum :: "real list \<Rightarrow> real \<Rightarrow> nat \<Rightarrow> real" where
  "dev_sum vs m p = sum_list (map (\<lambda>v. (v - m) ^ p) vs)"

text \<open>\<open>Series.std()\<close>: the sample standard deviation (\<open>ddof=1\<close>) of the numbers.\<close>

definition std :: "cell list \<Rightarrow> cell" where
  "std xs =
     (let vs = dropna xs; n = length vs
      in if n < 2 then None
         else Some (sqrt (dev_sum vs (sum_list vs / real n) 2 / real (n - 1))))"

text \<open>
  \<open>Series.skew()\<close> (\<open>nanops.nanskew\<close>): NaN below three numbers, 0 for a constant
  column, else \<open>n * sqrt(n - 1) / (n - 2) * m3 / m2 ** 1.5\<close>.
\<close>

definition skew :: "cell list \<Rightarrow> cell" where
  "skew xs =
     (let vs = dropna xs; n = length vs
      in if n < 3 then None
         else (let m = sum_list vs / real n; m2 = dev_sum vs m 2; m3 = dev_sum vs m 3
               in if m2 = 0 then Some 0
                  else Some (real n * sqrt (real (n - 1)) / real (n - 2) * (m3 / (m2 * sqrt m2)))))"

text \<open>
  One entry of \<open>DataFrame.corr(method='pearson', min_periods=1)\<close> (\<open>libalgos.nancorr\<close>):
  the rows where both cells are numbers are used; the entry is NaN when there is no
  such row or when the divisor is 0.
\<close>

fun complete_pairs :: "cell list \<Rightarrow> cell list \<Rightarrow> (real \<times> real) list" where
  "complete_pairs (Some x # xs) (Some y # ys) = (x, y) # complete_pairs xs ys"
| "complete_pairs (x # xs) (y # ys) = complete_pairs xs ys"
| "complete_pairs xs ys = []"

definition pearson :: "nat \<Rightarrow> cell list \<Rightarrow> cell list \<Rightarrow> cell" where
  "pearson min_periods xs ys =
     (let ps = complete_pairs xs ys; nobs = length ps
      in if nobs = 0 \<or> nobs < min_periods then None
         else (let meanx = sum_list (map fst ps) / real nobs;
                   meany = sum_list (map snd ps) / real nobs;
                   covxy = sum_list (map (\<lambda>(x, y). (x - meanx) * (y - meany)) ps);
                   divisor = sqrt (dev_sum (map fst ps) meanx 2 * dev_sum (map snd ps) meany 2)
               in if divisor \<noteq> 0 then Some (covxy / divisor) else None))"

section \<open>\<open>Analyzer.profile\<close>\<close>

text \<open>
  \<open>Series.to_dict()\<close>: a Python dict keeps one entry for each key, at the place of the
  first occurrence of the key and with the value of the last.
\<close>

fun dict_update :: "'k \<Rightarrow> 'v \<Rightarrow> ('k \<times> 'v) list \<Rightarrow> ('k \<times> 'v) list" where
  "dict_update k v [] = [(k, v)]"
| "dict_update k v ((k', v') # d) =
     (if k = k' then (k, v) # d else (k', v') # dict_update k v d)"

definition to_dict :: "('k \<times> 'v) list \<Rightarrow> ('k \<times> 'v) list" where
  "to_dict kvs = foldl (\<lambda>d (k, v). dict_update k v d) [] kvs"

text \<open>
  \<open>', '.join(labels)\<close>: a label that is no string raises a \<open>TypeError\<close> (\<open>sequence
  item ...: expected str instance, int found\<close>).
\<close>

fun join_labels :: "label list \<Rightarrow> error + string" where
  "join_labels [] = Inr []"
| "join_labels (IntLabel i # ls) = Inl (TypeError ''expected str instance, int found'')"
| "join_labels (Str s # ls) =
     (case join_labels ls of
        Inl e \<Rightarrow> Inl e
      | Inr rest \<Rightarrow> Inr (if ls = [] then s else s @ '', '' @ rest))"

text \<open>
  The fields of \<open>DataProfile\<close> whose values depend on the frame alone.  The byte counts
  of \<open>memory_usage\<close> and the \<open>describe()\<close> and \<open>value_counts()\<close> tables are left out; they
  raise nothing on the two column kinds.  The lines of \<open>summary\<close> are kept with the
  values they interpolate.
\<close>

record missing_summary =
  total_missing :: nat
  columns_with_missing :: "(label \<times> nat) list"

datatype summary_line =
    DatasetContains nat nat
  | MemoryUsage
  | FoundMissing nat nat
  | NoMissingValues
  | NumericColumns string
  | CategoricalColumns string

record data_profile =
  row_count :: nat
  column_count :: nat
  dtypes :: "(label \<times> string) list"
  missing_summary :: missing_summary
  summary :: "summary_line list"

text \<open>\<open>Series.isnull().sum()\<close> of one column.\<close>

fun null_count :: "column \<Rightarrow> nat" where
  "null_count (Numeric xs) = length (filter (\<lambda>c. c = None) xs)"
| "null_count (Categorical xs) = length (filter (\<lambda>c. c = None) xs)"

fun dtype :: "column \<Rightarrow> string" where
  "dtype (Numeric xs) = ''float64''"
| "dtype (Categorical xs) = ''object''"

text \<open>
  \<open>_generate_summary\<close>: the two \<open>join\<close> calls run only when there is such a column, the
  numeric one first.
\<close>

definition generate_summary :: "dataset \<Rightarrow> nat \<Rightarrow> nat \<Rightarrow> missing_summary \<Rightarrow> error + summary_line list" where
  "generate_summary df rows cols missing =
     (let lines =
            [DatasetContains rows cols, MemoryUsage] @
            (if total_missing missing > 0
             then [FoundMissing (total_missing missing) (length (columns_with_missing missing))]
             else [NoMissingValues]);
          numeric_cols = map fst (select_numeric df);
          cat_cols = categorical_labels df
      in case (if length numeric_cols > 0
               then (case join_labels numeric_cols of
                       Inl e \<Rightarrow> Inl e
                     | Inr names \<Rightarrow> Inr [NumericColumns names])
               else Inr [])
         of Inl e \<Rightarrow> Inl e
          | Inr numeric_line \<Rightarrow>
              (case (if length cat_cols > 0
                     then (case join_labels cat_cols of
                             Inl e \<Rightarrow> Inl e
                           | Inr names \<Rightarrow> Inr [CategoricalColumns names])
                     else Inr [])
               of Inl e \<Rightarrow> Inl e
                | Inr cat_line \<Rightarrow> Inr (lines @ numeric_line @ cat_line)))"

definition profile :: "dataset \<Rightarrow> error + data_profile" where
  "profile df =
     (let rows = len_df df;
          cols = length df;
          missing = map (\<lambda>(name, c). (name, null_count c)) df;
          missing_info =
            \<lparr> total_missing = sum_list (map snd missing),
              columns_with_missing = to_dict (filter (\<lambda>(name, k). k > 0) missing) \<rparr>
      in case generate_summary df rows cols missing_info of
           Inl e \<Rightarrow> Inl e
         | Inr lines \<Rightarrow>
             Inr \<lparr> row_count = rows,
                   column_count = cols,
                   dtypes = to_dict (map (\<lambda>(name, c). (name, dtype c)) df),
                   missing_summary = missing_info,
                   summary = lines \<rparr>)"

section \<open>\<open>Analyzer.correlation\<close>\<close>

text \<open>
  The correlation frame: its column labels and its rows of entries.  \<open>numeric_df.empty\<close>
  holds when the frame has no column or no row.  The method is the default
  \<open>'pearson'\<close>, the one \<open>generate_insights\<close> uses.
\<close>

record corr_frame =
  corr_columns :: "label list"
  corr_values :: "cell list list"

definition frame_empty :: "(label \<times> cell list) list \<Rightarrow> bool" where
  "frame_empty numeric_df \<longleftrightarrow>
     (case numeric_df of [] \<Rightarrow> True | (name, xs) # cs \<Rightarrow> xs = [])"

definition correlation :: "dataset \<Rightarrow> nat \<Rightarrow> error + corr_frame" where
  "correlation df min_periods =
     (let numeric_df = select_numeric df
      in if frame_empty numeric_df
         then Inl (ValueError ''No numeric columns found for correlation'')
         else Inr \<lparr> corr_columns = map fst numeric_df,
                    corr_values =
                      map (\<lambda>(a, xs). map (\<lambda>(b, ys). pearson min_periods xs ys) numeric_df)
                        numeric_df \<rparr>)"

section \<open>\<open>Analyzer.generate_insights\<close>\<close>

text \<open>
  An insight is one of five f-strings; the constructor keeps the values that the string
  interpolates:
  \<^item> \<open>Dataset has {row_count:,} rows and {column_count} columns\<close>
  \<^item> \<open>{missing_cols} columns have missing values\<close>
  \<^item> \<open>{col} has high variability (CV: {cv:.1f}%)\<close>
  \<^item> \<open>{col} is skewed to the {direction}\<close>
  \<^item> \<open>Strong {direction} correlation between {a} and {b} (r={r:.2f})\<close>
\<close>

datatype insight =
    RowsColumns nat nat
  | MissingColumns nat
  | HighVariability label real
  | Skewed label string
  | StrongCorrelation string label label real

text \<open>
  \<open>cv = (std_val / mean_val * 100) if mean_val != 0 else 0\<close>; NaN is different from 0.
  The quotient is the exact one: the doubles of the code round it, and overflow to
  infinity, so that the value and the test \<open>cv > 50\<close> of the code can differ from the
  ones here when the exact value is at the threshold or out of the range of doubles.
\<close>

definition coefficient_of_variation :: "cell \<Rightarrow> cell \<Rightarrow> cell" where
  "coefficient_of_variation std_val mean_val =
     (if mean_val \<noteq> Some 0
      then (case (std_val, mean_val) of
              (Some s, Some m) \<Rightarrow> Some (s / m * 100)
            | _ \<Rightarrow> None)
      else Some 0)"

text \<open>The body of the loop over \<open>numeric_cols[:3]\<close>; a comparison with NaN is false.\<close>

definition column_insights :: "label \<Rightarrow> cell list \<Rightarrow> insight list" where
  "column_insights col xs =
     (let cv = coefficient_of_variation (std xs) (mean xs)
      in (case cv of
            Some v \<Rightarrow> if v > 50 then [HighVariability col v] else []
          | None \<Rightarrow> []) @
         (case skew xs of
            Some s \<Rightarrow> if \<bar>s\<bar> > 1 then [Skewed col (if s > 0 then ''right'' else ''left'')] else []
          | None \<Rightarrow> []))"

text \<open>The pairs \<open>(corr.iloc[i, j], corr.columns[i], corr.columns[j])\<close> for \<open>i < j\<close>.\<close>

definition corr_pairs :: "corr_frame \<Rightarrow> (cell \<times> label \<times> label) list" where
  "corr_pairs corr =
     concat (map (\<lambda>i. map (\<lambda>j. (corr_values corr ! i ! j, corr_columns corr ! i, corr_columns corr ! j))
                          [Suc i..<length (corr_columns corr)])
                 [0..<length (corr_columns corr)])"

text \<open>Python's \<open><\<close> on floats: false as soon as one side is NaN.\<close>

fun float_lt :: "cell \<Rightarrow> cell \<Rightarrow> bool" where
  "float_lt (Some a) (Some b) = (a < b)"
| "float_lt a b = False"

text \<open>
  \<open>list.sort(reverse=True, key=...)\<close> is a stable sort into decreasing order that
  compares keys with \<open><\<close> only.  It is modelled as the insertion sort that puts every
  element, from the last to the first, in front of the sorted rest and moves it behind
  the elements whose key is greater.  This is the list of CPython when all keys are
  numbers (every stable sort gives it) and when no comparison of two neighbours of the
  list is true, as with a NaN key at every other place (the list is one run and is left
  as it is).  On other lists with NaN keys the binary insertion and the merges of
  CPython can give another order: nothing is stated about them.
\<close>

fun insert_desc :: "('a \<Rightarrow> cell) \<Rightarrow> 'a \<Rightarrow> 'a list \<Rightarrow> 'a list" where
  "insert_desc key x [] = [x]"
| "insert_desc key x (y # ys) =
     (if float_lt (key x) (key y) then y # insert_desc key x ys else x # y # ys)"

definition sort_reverse :: "('a \<Rightarrow> cell) \<Rightarrow> 'a list \<Rightarrow> 'a list" where
  "sort_reverse key xs = foldr (insert_desc key) xs []"

text \<open>The block under \<open>if corr_pairs:\<close>.\<close>

definition correlation_insight :: "(cell \<times> label \<times> label) list \<Rightarrow> insight list" where
  "correlation_insight pairs =
     (case sort_reverse (\<lambda>x. map_option abs (fst x)) pairs of
        [] \<Rightarrow> []
      | top_corr # rest \<Rightarrow>
          (case top_corr of
             (Some r, a, b) \<Rightarrow>
               if \<bar>r\<bar> > 0.7
               then [StrongCorrelation (if r > 0 then ''positive'' else ''negative'') a b r]
               else []
           | (None, a, b) \<Rightarrow> []))"

text \<open>
  \<open>df[col]\<close> in the loop over \<open>numeric_cols[:3]\<close> is a Series when one column has the
  label.  When the label is repeated it is a frame: its \<open>mean()\<close> raises a \<open>TypeError\<close>
  as soon as one of the columns is text (pandas 2), and otherwise \<open>mean_val != 0\<close> is a
  Series, whose truth value raises a \<open>ValueError\<close>.
\<close>

definition label_count :: "dataset \<Rightarrow> label \<Rightarrow> nat" where
  "label_count df col = length (filter (\<lambda>(name, c). name = col) df)"

definition repeated_label_error :: "dataset \<Rightarrow> label \<Rightarrow> error" where
  "repeated_label_error df col =
     (if col \<in> set (categorical_labels df)
      then TypeError ''Could not convert to numeric''
      else ValueError ''The truth value of a Series is ambiguous'')"

fun numeric_loop :: "dataset \<Rightarrow> (label \<times> cell list) list \<Rightarrow> error + insight list" where
  "numeric_loop df [] = Inr []"
| "numeric_loop df ((col, xs) # cols) =
     (if label_count df col > 1 then Inl (repeated_label_error df col)
      else (case numeric_loop df cols of
              Inl e \<Rightarrow> Inl e
            | Inr rest \<Rightarrow> Inr (column_insights col xs @ rest)))"

text \<open>
  \<open>generate_insights(df)\<close>; the parameter \<open>target_col\<close> is never read.  An exception
  leaves the body from \<open>profile\<close> (the \<open>join\<close> of its summary), from the loop over the
  numeric columns (a repeated label) or from \<open>correlation\<close> (an empty numeric frame),
  in this order.
\<close>

definition generate_insights :: "dataset \<Rightarrow> error + insight list" where
  "generate_insights df =
     (case profile df of
        Inl e \<Rightarrow> Inl e
      | Inr prof \<Rightarrow>
          (let basic = [RowsColumns (row_count prof) (column_count prof)];
               missing =
                 (if total_missing (missing_summary prof) > 0
                  then [MissingColumns (length (columns_with_missing (missing_summary prof)))]
                  else []);
               numeric_cols = select_numeric df
           in case numeric_loop df (take 3 numeric_cols) of
                Inl e \<Rightarrow> Inl e
              | Inr numeric \<Rightarrow>
                  if length numeric_cols \<ge> 2
                  then (case correlation df 1 of
                          Inl e \<Rightarrow> Inl e
                        | Inr corr \<Rightarrow>
                            Inr (basic @ missing @ numeric @ correlation_insight (corr_pairs corr)))
                  else Inr (basic @ missing @ numeric)))"

section \<open>Example frames\<close>

text \<open>The scenario of the specification for \<open>segment_rfm\<close>.\<close>

definition rfm_example :: dataset where
  "rfm_example =
     [(Str ''recency'', Numeric [Some 1, Some 5, Some 10, Some 50]),
      (Str ''frequency'', Numeric [Some 10, Some 8, Some 3, Some 1]),
      (Str ''monetary'', Numeric [Some 500, Some 300, Some 100, Some 20])]"

text \<open>Two customers, segmented into six tiers.\<close>

definition six_tier_example :: dataset where
  "six_tier_example =
     [(Str ''r'', Numeric [Some 2, Some 1]),
      (Str ''f'', Numeric [Some 1, Some 2]),
      (Str ''m'', Numeric [Some 1, Some 2])]"

text \<open>
  Frames for \<open>correlation\<close> and \<open>generate_insights\<close>: a numeric column without rows,
  text columns only, and one numeric column beside a text column.
\<close>

definition zero_row_example :: dataset where
  "zero_row_example = [(Str ''amount'', Numeric [])]"

definition text_example :: dataset where
  "text_example =
     [(Str ''name'', Categorical [Some ''ann'', Some ''bob'']),
      (Str ''city'', Categorical [Some ''rome'', None])]"

definition one_numeric_example :: dataset where
  "one_numeric_example =
     [(Str ''name'', Categorical [Some ''ann'', None, Some ''cy'']),
      (Str ''amount'', Numeric [Some 1, Some 2, Some 6])]"

text \<open>A frame read without a header row: its one column, numeric, has the label 0.\<close>

definition positional_example :: dataset where
  "positional_example = [(IntLabel 0, Numeric [Some 1, Some 2, Some 6])]"




text \<open>
  Four numeric columns, the third constant: its correlation with every column is NaN,
  and the pairs (A, D) and (B, D) have the same coefficient \<open>18 / sqrt 360\<close>, above the
  coefficient \<open>4 / 5\<close> of (A, B).
\<close>

definition tie_example :: dataset where
  "tie_example =
     [(Str ''A'', Numeric [Some 1, Some 2, Some 3, Some 4, Some 5]),
      (Str ''B'', Numeric [Some 2, Some 1, Some 4, Some 3, Some 5]),
      (Str ''C'', Numeric [Some 7, Some 7, Some 7, Some 7, Some 7]),
      (Str ''D'', Numeric [Some 3, Some 3, Some 7, Some 7, Some 10])]"

section \<open>Scaling a column\<close>

text \<open>\<open>df[col] * c\<close>: every number of the column is multiplied, NaN stays NaN.\<close>

definition scale_cells :: "real \<Rightarrow> cell list \<Rightarrow> cell list" where
  "scale_cells c xs = map (map_option (\<lambda>v. c * v)) xs"

section \<open>Evaluation\<close>

lemmas rfm_eval_defs =
  segment_rfm_def segment_bins_def rfm_scores_def fm_scores_def rank_first_def cut_nbins_def
  nbins_to_bins_def linspace_def segment_label_def segment_labels_def r_scores_def
  getitem_numeric_def qcut_def bins_to_cuts_def bin_code_def quantile_def
  searchsorted_left_def Let_def upt_rec

section \<open>Bin codes and labels\<close>

lemma length_linspace: "length (linspace a b n) = Suc n"
  by (simp add: linspace_def)

lemma length_nbins_to_bins: "length (nbins_to_bins mn mx n) = Suc n"
  by (simp add: nbins_to_bins_def length_linspace Let_def)

lemma searchsorted_left_le: "searchsorted_left bins v \<le> length bins"
  by (simp add: searchsorted_left_def length_takeWhile_le)

lemma bin_code_range:
  assumes "bin_code bins il c = Some b" and "bins \<noteq> []"
  shows "0 \<le> b \<and> b < int (length bins) - 1"
proof -
  from assms obtain v where c: "c = Some v" by (cases c) (auto simp: bin_code_def)
  define ids where "ids = (if il \<and> v = hd bins then 1 else searchsorted_left bins v)"
  from assms c have ok: "ids \<noteq> length bins" "ids \<noteq> 0" and b: "b = int ids - 1"
    by (auto simp: bin_code_def ids_def Let_def split: if_splits)
  have "1 \<le> length bins" using assms(2) by (cases bins) auto
  then have "ids \<le> length bins"
    using searchsorted_left_le [of bins v] by (auto simp: ids_def)
  with ok b show ?thesis by auto
qed

lemma cut_nbins_range:
  assumes "cut_nbins x n = Inr bins" and "i < length bins" and "bins ! i = Some b"
  shows "0 \<le> b \<and> b < n"
proof (cases "dropna x = []")
  case True
  with assms show ?thesis by (auto simp: cut_nbins_def Let_def split: if_splits)
next
  case False
  define edges where "edges = nbins_to_bins (Min (set (dropna x))) (Max (set (dropna x))) (nat n)"
  from assms(1) False have n: "1 \<le> n" and btc: "bins_to_cuts x edges False False = Inr bins"
    by (auto simp: cut_nbins_def Let_def edges_def split: if_splits)
  from btc have "bins = map (bin_code edges False) x"
    by (auto simp: bins_to_cuts_def Let_def split: if_splits)
  with assms(2,3) have "bin_code edges False (x ! i) = Some b" by simp
  moreover have "edges \<noteq> []"
    using length_nbins_to_bins [of "Min (set (dropna x))" "Max (set (dropna x))" "nat n"]
    by (auto simp: edges_def simp del: length_0_conv)
  ultimately show ?thesis
    using bin_code_range [of edges False "x ! i" b] n by (simp add: edges_def length_nbins_to_bins)
qed

lemma segment_label_Some:
  "0 \<le> b \<Longrightarrow> segment_label (Some b) =
     (if b = 0 then ''Lost'' else if b = 1 then ''At Risk''
      else if b = 2 then ''Potential Loyalist''
      else if b = 3 then ''Loyal Customer'' else ''Champion'')"
  by (auto simp: segment_label_def segment_labels_def min_def)

text \<open>
  C1, as the specification states it, fails: with six tiers the second customer of
  \<open>six_tier_example\<close> has the final bin index 5 and is labelled \<open>Champion\<close>, not
  \<open>Other\<close>.
\<close>

theorem other_label_counterexample:
  "segment_bins six_tier_example ''r'' ''f'' ''m'' 6 = Inr [Some 0, Some 5] \<and>
   segment_rfm six_tier_example ''r'' ''f'' ''m'' 6 = Inr [''Lost'', ''Champion'']"
  by (simp add: six_tier_example_def rfm_eval_defs)

text \<open>
  C1, amended: whenever \<open>segment_rfm\<close> returns, the final bin index of a row lies in
  \<open>0 .. n_segments - 1\<close>; the indices 0 to 3 are labelled Lost, At Risk, Potential
  Loyalist and Loyal Customer; every index of 4 or more is capped to 4 and labelled
  Champion; \<open>Other\<close> is the label of exactly the rows that have no bin index.
\<close>

theorem segment_label_capped:
  assumes "segment_bins df r_col f_col m_col n = Inr bins" and "i < length bins"
  shows "\<exists>labels. segment_rfm df r_col f_col m_col n = Inr labels \<and>
           length labels = length bins \<and>
           (\<forall>b. bins ! i = Some b \<longrightarrow> 0 \<le> b \<and> b < n) \<and>
           (bins ! i = Some 0 \<longrightarrow> labels ! i = ''Lost'') \<and>
           (bins ! i = Some 1 \<longrightarrow> labels ! i = ''At Risk'') \<and>
           (bins ! i = Some 2 \<longrightarrow> labels ! i = ''Potential Loyalist'') \<and>
           (bins ! i = Some 3 \<longrightarrow> labels ! i = ''Loyal Customer'') \<and>
           (\<forall>b. bins ! i = Some b \<and> 4 \<le> b \<longrightarrow> labels ! i = ''Champion'') \<and>
           (labels ! i = ''Other'' \<longleftrightarrow> bins ! i = None)"
proof -
  have rfm: "segment_rfm df r_col f_col m_col n = Inr (map segment_label bins)"
    using assms(1) by (simp add: segment_rfm_def)
  have range: "0 \<le> b \<and> b < n" if "bins ! i = Some b" for b
  proof -
    from assms(1) obtain rfm_score where
      "cut_nbins (map (map_option real_of_int) rfm_score) n = Inr bins"
      by (auto simp: segment_bins_def split: sum.splits)
    from cut_nbins_range [OF this assms(2) that] show ?thesis .
  qed
  have other: "segment_label (bins ! i) = ''Other'' \<longleftrightarrow> bins ! i = None"
  proof (cases "bins ! i")
    case None
    then show ?thesis by (simp add: segment_label_def)
  next
    case (Some b)
    with range [of b] show ?thesis by (simp add: segment_label_Some)
  qed
  show ?thesis
    using rfm assms(2) range other by (auto simp: segment_label_Some)
qed

theorem segment_label_capped_witness:
  "\<exists>labels. segment_rfm six_tier_example ''r'' ''f'' ''m'' 6 = Inr labels \<and>
     labels ! 1 = ''Champion''"
proof -
  have b: "segment_bins six_tier_example ''r'' ''f'' ''m'' 6 = Inr [Some 0, Some 5]"
    by (simp add: six_tier_example_def rfm_eval_defs)
  have i: "1 < length [Some (0::int), Some 5]" by simp
  from segment_label_capped [OF b i] show ?thesis by auto
qed

text \<open>
  C2: on the scenario frame with four segments, row 0 has the recency score 3, the
  highest of \<open>0 .. 3\<close>, and the label Loyal Customer.
\<close>

theorem rfm_scenario_row0:
  "\<exists>r_score labels.
     r_scores rfm_example ''recency'' 4 = Inr r_score \<and> r_score ! 0 = Some 3 \<and>
     segment_rfm rfm_example ''recency'' ''frequency'' ''monetary'' 4 = Inr labels \<and>
     (labels ! 0 = ''Loyal Customer'' \<or> labels ! 0 = ''Champion'')"
proof -
  have "r_scores rfm_example ''recency'' 4 = Inr [Some 3, Some 2, Some 1, Some 0]"
    by (simp add: rfm_example_def rfm_eval_defs)
  moreover have "segment_rfm rfm_example ''recency'' ''frequency'' ''monetary'' 4 =
      Inr [''Loyal Customer'', ''Potential Loyalist'', ''At Risk'', ''Lost'']"
    by (simp add: rfm_example_def rfm_eval_defs)
  ultimately show ?thesis by simp
qed

section \<open>\<open>correlation\<close> on frames without numbers\<close>

lemma select_numeric_length:
  "wf_dataset df \<Longrightarrow> (name, xs) \<in> set (select_numeric df) \<Longrightarrow> length xs = len_df df"
proof -
  have *: "(name, xs) \<in> set (select_numeric d) \<Longrightarrow> (name, Numeric xs) \<in> set d" for d
    by (induction d rule: select_numeric.induct) auto
  assume "wf_dataset df" "(name, xs) \<in> set (select_numeric df)"
  then show ?thesis using * [of df] by (auto simp: wf_dataset_def list_all_iff)
qed

lemma frame_empty_wf:
  assumes "wf_dataset df"
  shows "frame_empty (select_numeric df) \<longleftrightarrow> select_numeric df = [] \<or> len_df df = 0"
proof (cases "select_numeric df")
  case Nil
  then show ?thesis by (simp add: frame_empty_def)
next
  case (Cons p ps)
  obtain name xs where p: "p = (name, xs)" by (cases p)
  with Cons have "(name, xs) \<in> set (select_numeric df)" by simp
  from select_numeric_length [OF assms this, symmetric] Cons p show ?thesis
    by (simp add: frame_empty_def)
qed

text \<open>
  C7, as the specification states it, fails in its second half: a frame with a numeric
  column and no row is \<open>empty\<close> for pandas, and \<open>correlation\<close> raises the same error.
\<close>

theorem correlation_zero_rows_counterexample:
  "length (select_numeric zero_row_example) = 1 \<and>
   correlation zero_row_example 1 = Inl (ValueError ''No numeric columns found for correlation'')"
  by (simp add: zero_row_example_def correlation_def frame_empty_def)

text \<open>
  C7, amended: \<open>correlation\<close> raises the error \<open>No numeric columns found for
  correlation\<close> for every frame without numeric columns, and also for every frame
  without rows; for a frame with at least one numeric column and at least one row it
  returns the correlation frame over the numeric columns.
\<close>

theorem correlation_no_numeric_data:
  assumes "wf_dataset df"
  shows "(select_numeric df = [] \<or> len_df df = 0 \<longrightarrow>
            correlation df min_periods = Inl (ValueError ''No numeric columns found for correlation'')) \<and>
         (select_numeric df \<noteq> [] \<and> 0 < len_df df \<longrightarrow>
            (\<exists>corr. correlation df min_periods = Inr corr \<and>
                    corr_columns corr = map fst (select_numeric df)))"
  using frame_empty_wf [OF assms] by (auto simp: correlation_def Let_def)

theorem correlation_no_numeric_data_witness:
  "correlation text_example 1 = Inl (ValueError ''No numeric columns found for correlation'') \<and>
   (\<exists>corr. correlation one_numeric_example 1 = Inr corr \<and>
      corr_columns corr = [Str ''amount''])"
proof -
  have wf1: "wf_dataset text_example"
    by (simp add: wf_dataset_def text_example_def)
  have wf2: "wf_dataset one_numeric_example"
    by (simp add: wf_dataset_def one_numeric_example_def)
  have e1: "select_numeric text_example = []" by (simp add: text_example_def)
  have e2: "select_numeric one_numeric_example = [(Str ''amount'', [Some 1, Some 2, Some 6])]"
    "len_df one_numeric_example = 3"
    by (simp_all add: one_numeric_example_def)
  show ?thesis
    using correlation_no_numeric_data [OF wf1, of 1] correlation_no_numeric_data [OF wf2, of 1] e1 e2
    by simp
qed

section \<open>The exceptions and the insights of \<open>generate_insights\<close>\<close>

lemma column_insights_kinds:
  "x \<in> set (column_insights col xs) \<Longrightarrow>
     (\<exists>v. x = HighVariability col v) \<or> (\<exists>d. x = Skewed col d)"
  by (auto simp: column_insights_def Let_def split: option.splits if_splits)

lemma numeric_loop_kinds:
  "numeric_loop df cols = Inr numeric \<Longrightarrow> x \<in> set numeric \<Longrightarrow>
     (\<exists>col v. x = HighVariability col v) \<or> (\<exists>col d. x = Skewed col d)"
proof (induction cols arbitrary: numeric)
  case Nil
  then show ?case by simp
next
  case (Cons p cols)
  obtain col xs where p: "p = (col, xs)" by (cases p)
  from Cons.prems(1) p obtain rest where rest: "numeric_loop df cols = Inr rest"
    and numeric: "numeric = column_insights col xs @ rest"
    by (auto split: if_splits sum.splits)
  from Cons.prems(2) numeric have "x \<in> set (column_insights col xs) \<or> x \<in> set rest" by simp
  then show ?case
  proof
    assume "x \<in> set (column_insights col xs)"
    from column_insights_kinds [OF this] show ?thesis by blast
  next
    assume "x \<in> set rest"
    from Cons.IH [OF rest this] show ?thesis .
  qed
qed

lemma correlation_insight_kinds:
  "x \<in> set (correlation_insight pairs) \<Longrightarrow> \<exists>d a b r. x = StrongCorrelation d a b r"
  by (auto simp: correlation_insight_def split: list.splits option.splits if_splits prod.splits)

text \<open>With string labels the summary is built and \<open>profile\<close> returns.\<close>

lemma join_labels_str: "\<forall>l \<in> set ls. is_str l \<Longrightarrow> \<exists>names. join_labels ls = Inr names"
  by (induction ls rule: join_labels.induct) auto

lemma select_numeric_labels: "set (map fst (select_numeric df)) \<subseteq> set (map fst df)"
  by (induction df rule: select_numeric.induct) auto

lemma categorical_labels_subset: "set (categorical_labels df) \<subseteq> set (map fst df)"
  by (induction df rule: categorical_labels.induct) auto

lemma generate_summary_returns:
  assumes "\<forall>l \<in> set (map fst df). is_str l"
  shows "\<exists>lines. generate_summary df rows cols missing = Inr lines"
proof -
  from assms select_numeric_labels [of df]
  have "\<forall>l \<in> set (map fst (select_numeric df)). is_str l" by blast
  from join_labels_str [OF this] obtain n where
    n: "join_labels (map fst (select_numeric df)) = Inr n" by blast
  from assms categorical_labels_subset [of df]
  have "\<forall>l \<in> set (categorical_labels df). is_str l" by blast
  from join_labels_str [OF this] obtain c where c: "join_labels (categorical_labels df) = Inr c"
    by blast
  show ?thesis by (simp add: generate_summary_def Let_def n c)
qed

lemma profile_returns:
  assumes "\<forall>l \<in> set (map fst df). is_str l"
  shows "\<exists>p. profile df = Inr p"
proof -
  from generate_summary_returns [OF assms] obtain lines where
    "generate_summary df (len_df df) (length df)
       \<lparr> total_missing = sum_list (map snd (map (\<lambda>(name, c). (name, null_count c)) df)),
         columns_with_missing =
           to_dict (filter (\<lambda>(name, k). k > 0) (map (\<lambda>(name, c). (name, null_count c)) df)) \<rparr>
     = Inr lines"
    by blast
  then show ?thesis by (simp add: profile_def Let_def)
qed

text \<open>With pairwise different labels the loop over the numeric columns returns.\<close>

lemma label_count_distinct: "distinct (map fst df) \<Longrightarrow> label_count df col \<le> 1"
  unfolding label_count_def
proof (induction df)
  case Nil
  then show ?case by simp
next
  case (Cons p df)
  obtain name c where p: "p = (name, c)" by (cases p)
  show ?case
  proof (cases "name = col")
    case True
    with Cons.prems p have "col \<notin> fst ` set df" by simp
    then have "filter (\<lambda>(name, c). name = col) df = []"
      by (auto simp: filter_empty_conv image_iff)
    with True p show ?thesis by simp
  next
    case False
    with Cons p show ?thesis by simp
  qed
qed

lemma numeric_loop_returns:
  assumes "distinct (map fst df)"
  shows "\<exists>numeric. numeric_loop df cols = Inr numeric"
proof (induction cols)
  case Nil
  then show ?case by simp
next
  case (Cons p cols)
  obtain col xs where p: "p = (col, xs)" by (cases p)
  from label_count_distinct [OF assms, of col] have "\<not> label_count df col > 1" by simp
  with Cons p show ?case by auto
qed

lemma generate_insights_returns:
  assumes "distinct (map fst df)" and "\<forall>l \<in> set (map fst df). is_str l"
    and "length (select_numeric df) < 2 \<or> \<not> frame_empty (select_numeric df)"
  shows "\<exists>insights. generate_insights df = Inr insights"
proof -
  from profile_returns [OF assms(2)] obtain p where p: "profile df = Inr p" by blast
  from numeric_loop_returns [OF assms(1)] obtain numeric where
    n: "numeric_loop df (take 3 (select_numeric df)) = Inr numeric" by blast
  from assms(3) show ?thesis
    by (auto simp: generate_insights_def Let_def p n correlation_def)
qed

lemma generate_insights_unfold:
  assumes "generate_insights df = Inr insights"
  obtains p numeric corr where
    "profile df = Inr p" and
    "numeric_loop df (take 3 (select_numeric df)) = Inr numeric" and
    "insights =
       [RowsColumns (row_count p) (column_count p)] @
       (if total_missing (missing_summary p) > 0
        then [MissingColumns (length (columns_with_missing (missing_summary p)))]
        else []) @
       numeric @ corr" and
    "\<forall>x \<in> set corr. \<exists>d a b r. x = StrongCorrelation d a b r" and
    "length (select_numeric df) < 2 \<longrightarrow> corr = []"
proof -
  from assms obtain p where p: "profile df = Inr p"
    by (auto simp: generate_insights_def split: sum.splits)
  from assms p obtain numeric where n: "numeric_loop df (take 3 (select_numeric df)) = Inr numeric"
    by (auto simp: generate_insights_def Let_def split: sum.splits)
  show ?thesis
  proof (cases "length (select_numeric df) \<ge> 2")
    case True
    with assms p n obtain c where "correlation df 1 = Inr c" and
      ins: "insights =
         [RowsColumns (row_count p) (column_count p)] @
         (if total_missing (missing_summary p) > 0
          then [MissingColumns (length (columns_with_missing (missing_summary p)))]
          else []) @
         numeric @ correlation_insight (corr_pairs c)"
      by (auto simp: generate_insights_def Let_def split: sum.splits)
    show ?thesis
    proof (rule that [of p numeric "correlation_insight (corr_pairs c)"])
      show "profile df = Inr p" by (rule p)
      show "numeric_loop df (take 3 (select_numeric df)) = Inr numeric" by (rule n)
      show "insights =
         [RowsColumns (row_count p) (column_count p)] @
         (if total_missing (missing_summary p) > 0
          then [MissingColumns (length (columns_with_missing (missing_summary p)))]
          else []) @
         numeric @ correlation_insight (corr_pairs c)" by (rule ins)
      show "\<forall>x \<in> set (correlation_insight (corr_pairs c)). \<exists>d a b r. x = StrongCorrelation d a b r"
        using correlation_insight_kinds by blast
      show "length (select_numeric df) < 2 \<longrightarrow> correlation_insight (corr_pairs c) = []"
        using True by simp
    qed
  next
    case False
    with assms p n have
      ins: "insights =
         [RowsColumns (row_count p) (column_count p)] @
         (if total_missing (missing_summary p) > 0
          then [MissingColumns (length (columns_with_missing (missing_summary p)))]
          else []) @
         numeric @ []"
      by (auto simp: generate_insights_def Let_def split: sum.splits)
    show ?thesis
    proof (rule that [of p numeric "[]"])
      show "profile df = Inr p" by (rule p)
      show "numeric_loop df (take 3 (select_numeric df)) = Inr numeric" by (rule n)
      show "insights =
         [RowsColumns (row_count p) (column_count p)] @
         (if total_missing (missing_summary p) > 0
          then [MissingColumns (length (columns_with_missing (missing_summary p)))]
          else []) @
         numeric @ []" by (rule ins)
      show "\<forall>x \<in> set []. \<exists>d a b r. x = StrongCorrelation d a b r" by simp
      show "length (select_numeric df) < 2 \<longrightarrow> [] = ([] :: insight list)" by simp
    qed
  qed
qed

text \<open>
  C6, as the specification states it, fails: the frame \<open>positional_example\<close> has exactly
  one numeric column, with the integer label 0, and \<open>generate_insights\<close> raises the
  \<open>TypeError\<close> of the \<open>join\<close> in the summary of \<open>profile\<close>.
\<close>

theorem positional_label_raises:
  "length (select_numeric positional_example) = 1 \<and>
   generate_insights positional_example = Inl (TypeError ''expected str instance, int found'')"
  by (simp add: positional_example_def generate_insights_def profile_def generate_summary_def
      Let_def)

text \<open>
  C6, amended: for every frame whose labels are pairwise different strings and which
  has fewer than two numeric columns (in particular exactly one), \<open>generate_insights\<close>
  returns a list, the correlation step is skipped and no insight of the list is a
  correlation insight.
\<close>

theorem single_numeric_no_correlation:
  assumes "distinct (map fst df)" and "\<forall>l \<in> set (map fst df). is_str l"
    and "length (select_numeric df) < 2"
  shows "\<exists>insights. generate_insights df = Inr insights \<and>
           (\<forall>d a b r. StrongCorrelation d a b r \<notin> set insights)"
proof -
  from generate_insights_returns [OF assms(1,2)] assms(3) obtain insights where
    g: "generate_insights df = Inr insights" by blast
  from g obtain p numeric corr where
    p: "profile df = Inr p" and
    n: "numeric_loop df (take 3 (select_numeric df)) = Inr numeric" and
    i: "insights =
         [RowsColumns (row_count p) (column_count p)] @
         (if total_missing (missing_summary p) > 0
          then [MissingColumns (length (columns_with_missing (missing_summary p)))]
          else []) @
         numeric @ corr" and
    k: "\<forall>x \<in> set corr. \<exists>d a b r. x = StrongCorrelation d a b r" and
    c: "length (select_numeric df) < 2 \<longrightarrow> corr = []"
    by (rule generate_insights_unfold)
  from c assms(3) have corr: "corr = []" by simp
  have "StrongCorrelation d a b r \<notin> set numeric" for d a b r
    using numeric_loop_kinds [OF n, of "StrongCorrelation d a b r"] by auto
  with i corr have "\<forall>d a b r. StrongCorrelation d a b r \<notin> set insights" by auto
  with g show ?thesis by blast
qed

theorem single_numeric_no_correlation_witness:
  "\<exists>insights. generate_insights one_numeric_example = Inr insights \<and>
           (\<forall>d a b r. StrongCorrelation d a b r \<notin> set insights)"
proof -
  have d: "distinct (map fst one_numeric_example)"
    by (simp add: one_numeric_example_def)
  have s: "\<forall>l \<in> set (map fst one_numeric_example). is_str l"
    by (simp add: one_numeric_example_def)
  have n: "length (select_numeric one_numeric_example) < 2"
    by (simp add: one_numeric_example_def)
  from single_numeric_no_correlation [OF d s n] show ?thesis .
qed

section \<open>The missing-value insight\<close>










section \<open>Edges and codes of \<open>qcut\<close>\<close>

lemma set_unique: "set (unique xs) = set xs"
  by (induction xs rule: unique.induct) auto

lemma hd_unique: "hd (unique xs) = hd xs"
  by (cases xs) auto

lemma unique_Nil_iff: "unique xs = [] \<longleftrightarrow> xs = []"
  by (cases xs) auto

lemma unique_distinct: "distinct xs \<Longrightarrow> unique xs = xs"
proof (induction xs)
  case Nil
  then show ?case by simp
next
  case (Cons x xs)
  then have "filter (\<lambda>y. y \<noteq> x) xs = xs" by (auto intro: filter_True)
  with Cons show ?case by simp
qed

lemma searchsorted_left_pos:
  "bins \<noteq> [] \<Longrightarrow> hd bins < v \<Longrightarrow> 0 < searchsorted_left bins v"
  by (cases bins) (auto simp: searchsorted_left_def)

lemma searchsorted_left_less:
  "b \<in> set bins \<Longrightarrow> \<not> b < v \<Longrightarrow> searchsorted_left bins v < length bins"
  unfolding searchsorted_left_def by (induction bins) auto

lemma searchsorted_left_mono:
  "v \<le> w \<Longrightarrow> searchsorted_left bins v \<le> searchsorted_left bins w"
  unfolding searchsorted_left_def by (induction bins) auto

lemma sort_Nil_iff: "sort vs = [] \<longleftrightarrow> vs = []" for vs :: "real list"
  by (metis length_sort length_0_conv)

lemma dropna_mem: "v \<in> set (dropna x) \<longleftrightarrow> Some v \<in> set x"
  by (induction x rule: dropna.induct) auto

lemma quantile_first: "quantile s 0 q = s ! 0"
  by (simp add: quantile_def)

lemma quantile_last: "0 < q \<Longrightarrow> quantile s q q = s ! (length s - 1)"
  by (simp add: quantile_def)

text \<open>The edges that \<open>qcut\<close> hands to \<open>bin_code\<close>, for numbers \<open>s\<close> in increasing order.\<close>

lemma qcut_unfold:
  assumes "0 \<le> q" and "dropna x \<noteq> []"
  shows "\<exists>edges. qcut x q = Inr (map (bin_code edges True) x) \<and> edges \<noteq> [] \<and>
           hd edges = hd (sort (dropna x)) \<and>
           (0 < q \<longrightarrow> last (sort (dropna x)) \<in> set edges) \<and>
           (q = 1 \<longrightarrow> length edges = 2) \<and> length edges \<le> Suc (nat q)"
proof -
  define s where "s = sort (dropna x)"
  define E where "E = map (\<lambda>k. quantile s k (nat q)) [0..<Suc (nat q)]"
  define edges where
    "edges = (if length (unique E) < length E \<and> length E \<noteq> 2 then unique E else E)"
  have s: "s \<noteq> []" using assms(2) by (simp add: s_def sort_Nil_iff)
  have E: "E \<noteq> []" "length E = Suc (nat q)" by (simp_all add: E_def)
  have hdE: "hd E = hd s"
    using s by (simp add: E_def upt_rec [of 0] quantile_first hd_conv_nth)
  have lastE: "last s \<in> set E" if "0 < q"
  proof -
    have "quantile s (nat q) (nat q) \<in> set E" by (auto simp: E_def)
    with that s show ?thesis by (simp add: quantile_last last_conv_nth)
  qed
  have "qcut x q = Inr (map (bin_code edges True) x)"
    using assms s by (simp add: qcut_def bins_to_cuts_def Let_def s_def E_def edges_def)
  moreover have "edges \<noteq> []" using E by (simp add: edges_def unique_Nil_iff)
  moreover have "hd edges = hd s" using hdE by (simp add: edges_def hd_unique)
  moreover have "0 < q \<longrightarrow> last s \<in> set edges" using lastE by (simp add: edges_def set_unique)
  moreover have "q = 1 \<longrightarrow> length edges = 2" using E by (simp add: edges_def)
  moreover have "length edges \<le> Suc (nat q)" using E by (simp add: edges_def)
  ultimately show ?thesis unfolding s_def by blast
qed

lemma sorted_le_last: "sorted xs \<Longrightarrow> v \<in> set xs \<Longrightarrow> v \<le> last xs" for xs :: "real list"
  by (induction xs) auto

lemma sort_bounds:
  fixes vs :: "real list"
  assumes "v \<in> set vs"
  shows "hd (sort vs) \<le> v \<and> v \<le> last (sort vs)"
proof -
  have m: "v \<in> set (sort vs)" using assms by simp
  then have ne: "sort vs \<noteq> []" by (auto simp del: set_sort)
  have "hd (sort vs) \<le> v"
    using m ne sorted_sort [of vs] by (cases "sort vs") auto
  moreover have "v \<le> last (sort vs)"
    using m sorted_sort [of vs] by (rule sorted_le_last [rotated])
  ultimately show ?thesis ..
qed

text \<open>
  Codes of numbers whose least edge is the least number and whose edges contain the
  greatest number: with one edge no number has a code, with more every number has one,
  and the codes grow with the numbers.
\<close>

lemma bin_code_one_edge:
  "length edges = 1 \<Longrightarrow> bin_code edges True c = None"
proof (cases c)
  case None
  then show ?thesis by (simp add: bin_code_def)
next
  case (Some v)
  assume l: "length edges = 1"
  with searchsorted_left_le [of edges v]
  have "searchsorted_left edges v = 0 \<or> searchsorted_left edges v = 1" by auto
  with l Some show ?thesis by (auto simp: bin_code_def Let_def)
qed

lemma bin_code_defined:
  assumes "2 \<le> length edges" and "hd edges \<le> v" and "hi \<in> set edges" and "v \<le> hi"
  shows "\<exists>b. bin_code edges True (Some v) = Some b"
proof (cases "v = hd edges")
  case True
  with assms(1) show ?thesis by (auto simp: bin_code_def Let_def)
next
  case False
  with assms(2) have "hd edges < v" by simp
  moreover have "edges \<noteq> []" using assms(1) by auto
  ultimately have "0 < searchsorted_left edges v" by (rule searchsorted_left_pos [rotated])
  moreover have "searchsorted_left edges v < length edges"
    using assms(3,4) by (intro searchsorted_left_less [of hi]) auto
  ultimately show ?thesis using False by (auto simp: bin_code_def Let_def)
qed

lemma bin_code_mono:
  assumes "bin_code edges True (Some v) = Some a" and "bin_code edges True (Some w) = Some b"
    and "hd edges \<le> v" and "v \<le> w" and "edges \<noteq> []"
  shows "a \<le> b"
proof -
  define ids where "ids u = (if u = hd edges then 1 else searchsorted_left edges u)" for u
  from assms(1,2) have a: "a = int (ids v) - 1" and b: "b = int (ids w) - 1"
    by (auto simp: bin_code_def Let_def ids_def split: if_splits)
  have "ids v \<le> ids w"
  proof (cases "w = hd edges")
    case True
    with assms(3,4) have "v = hd edges" by simp
    with True show ?thesis by (simp add: ids_def)
  next
    case False
    with assms(3,4) have "hd edges < w" by simp
    with assms(5) have "0 < searchsorted_left edges w" by (rule searchsorted_left_pos)
    with False searchsorted_left_mono [OF assms(4), of edges] show ?thesis
      by (auto simp: ids_def)
  qed
  with a b show ?thesis by simp
qed

lemma qcut_codes:
  assumes "qcut x q = Inr codes"
  shows "length codes = length x \<and>
         ((\<forall>i < length x. codes ! i = None) \<and> q \<noteq> 1 \<or>
          (\<forall>i < length x. x ! i \<noteq> None \<longrightarrow> codes ! i \<noteq> None)) \<and>
         (\<forall>i < length x. \<forall>j < length x. \<forall>v w a b.
            x ! i = Some v \<and> x ! j = Some w \<and> v \<le> w \<and> codes ! i = Some a \<and> codes ! j = Some b
            \<longrightarrow> a \<le> b)"
proof (cases "dropna x = []")
  case True
  then have "\<forall>i < length x. x ! i = None"
    using dropna_mem [of _ x] by (metis empty_iff list.set(1) not_None_eq nth_mem)
  moreover from True assms have "codes = map (\<lambda>c. None) x"
    by (auto simp: qcut_def Let_def split: if_splits)
  ultimately show ?thesis by auto
next
  case False
  from assms have q: "0 \<le> q" by (auto simp: qcut_def split: if_splits)
  from qcut_unfold [OF q False] assms obtain edges where
    codes: "codes = map (bin_code edges True) x" and ne: "edges \<noteq> []" and
    hd: "hd edges = hd (sort (dropna x))" and
    top: "0 < q \<longrightarrow> last (sort (dropna x)) \<in> set edges" and
    two: "q = 1 \<longrightarrow> length edges = 2" and le: "length edges \<le> Suc (nat q)"
    by auto
  have bounds: "hd edges \<le> v \<and> v \<le> last (sort (dropna x))" if "i < length x" "x ! i = Some v" for i v
  proof -
    from that have "v \<in> set (dropna x)" by (metis dropna_mem nth_mem)
    from sort_bounds [OF this] hd show ?thesis by simp
  qed
  have mono: "a \<le> b" if "i < length x" "j < length x" "x ! i = Some v" "x ! j = Some w" "v \<le> w"
    "codes ! i = Some a" "codes ! j = Some b" for i j v w a b
  proof -
    from that codes have "bin_code edges True (Some v) = Some a" "bin_code edges True (Some w) = Some b"
      by auto
    then show ?thesis using bounds [OF that(1,3)] that(5) ne by (intro bin_code_mono) auto
  qed
  show ?thesis
  proof (cases "length edges = 1")
    case True
    with codes two have "\<forall>i < length x. codes ! i = None" "q \<noteq> 1"
      by (auto simp: bin_code_one_edge)
    with codes mono show ?thesis by auto
  next
    case False
    with ne have l: "2 \<le> length edges" by (cases edges) (auto simp: Suc_le_eq)
    from l le have "0 < q" by auto
    with top have t: "last (sort (dropna x)) \<in> set edges" by simp
    have "codes ! i \<noteq> None" if "i < length x" "x ! i \<noteq> None" for i
    proof -
      from that obtain v where v: "x ! i = Some v" by auto
      from bin_code_defined [OF l _ t] bounds [OF that(1) v] obtain b where
        "bin_code edges True (Some v) = Some b" by blast
      with codes that(1) v show ?thesis by simp
    qed
    with codes mono show ?thesis by auto
  qed
qed
section \<open>Edges and codes of \<open>cut\<close>\<close>

lemma linspace_Cons:
  "linspace a b k = a # map (\<lambda>i. a + real i * ((b - a) / real k)) [1..<Suc k]"
  by (simp add: linspace_def upt_rec [of 0])

lemma linspace_tail_distinct:
  assumes "a < b" and "0 < k"
  shows "distinct (map (\<lambda>i. a + real i * ((b - a) / real k)) [j..<Suc k])"
proof -
  have "0 < (b - a) / real k" using assms by simp
  then have "inj_on (\<lambda>i. a + real i * ((b - a) / real k)) (set [j..<Suc k])"
    by (auto simp: inj_on_def)
  then show ?thesis by (simp add: distinct_map)
qed

lemma linspace_tail_ge:
  assumes "a < b" and "0 < k" and "e \<in> set (map (\<lambda>i. a + real i * ((b - a) / real k)) [j..<Suc k])"
  shows "a \<le> e"
proof -
  define d where "d = (b - a) / real k"
  have "0 < d" using assms by (simp add: d_def)
  then have "0 \<le> real i * d" for i by simp
  then have "a \<le> a + real i * d" for i by simp
  moreover from assms(3) obtain i where "e = a + real i * d"
    unfolding d_def set_map by blast
  ultimately show ?thesis by simp
qed

lemma linspace_top:
  assumes "0 < k"
  shows "b \<in> set (map (\<lambda>i. a + real i * ((b - a) / real k)) [1..<Suc k])"
proof -
  have "a + real k * ((b - a) / real k) = b" using assms by simp
  moreover have "k \<in> set [1..<Suc k]" using assms by auto
  ultimately show ?thesis by (metis (mono_tags, lifting) image_eqI set_map)
qed

lemma nbins_to_bins_edges:
  assumes "mn \<le> mx" and "0 < k"
  shows "distinct (nbins_to_bins mn mx k) \<and> nbins_to_bins mn mx k \<noteq> [] \<and>
         hd (nbins_to_bins mn mx k) < mn \<and> (\<exists>hi \<in> set (nbins_to_bins mn mx k). mx \<le> hi)"
proof (cases "mn = mx")
  case True
  define a where "a = mn - (if mn \<noteq> 0 then 0.001 * \<bar>mn\<bar> else 0.001)"
  define b where "b = mx + (if mx \<noteq> 0 then 0.001 * \<bar>mx\<bar> else 0.001)"
  have a: "a < mn" and b: "mx < b" by (auto simp: a_def b_def)
  with True have ab: "a < b" by simp
  have eq: "nbins_to_bins mn mx k = linspace a b k"
    using True by (simp add: nbins_to_bins_def a_def b_def)
  have "distinct (linspace a b k)"
    using linspace_tail_distinct [OF ab assms(2), of 0] by (simp add: linspace_def)
  moreover have "hd (linspace a b k) < mn" using a by (simp add: linspace_Cons)
  moreover have "b \<in> set (linspace a b k)"
    using linspace_top [OF assms(2), of b a] by (simp add: linspace_Cons)
  ultimately show ?thesis using eq b by (auto simp: linspace_Cons)
next
  case False
  with assms(1) have lt: "mn < mx" by simp
  define rest where "rest = map (\<lambda>i. mn + real i * ((mx - mn) / real k)) [1..<Suc k]"
  have eq: "nbins_to_bins mn mx k = (mn - (mx - mn) * 0.001) # rest"
    using False by (simp add: nbins_to_bins_def linspace_Cons rest_def Let_def)
  have low: "mn - (mx - mn) * 0.001 < mn" using lt by simp
  have "distinct rest" unfolding rest_def by (rule linspace_tail_distinct [OF lt assms(2)])
  moreover have "mn - (mx - mn) * 0.001 \<notin> set rest"
    using linspace_tail_ge [OF lt assms(2), of "mn - (mx - mn) * 0.001" 1] low
    by (auto simp: rest_def)
  moreover have "mx \<in> set rest" unfolding rest_def by (rule linspace_top [OF assms(2)])
  ultimately show ?thesis using eq low by auto
qed

lemma dropna_all_numbers: "None \<notin> set x \<Longrightarrow> x \<noteq> [] \<Longrightarrow> dropna x \<noteq> []"
  by (cases x rule: dropna.cases) auto

lemma cut_nbins_all_numbers:
  assumes "x \<noteq> []" and "None \<notin> set x" and "1 \<le> n"
  shows "\<exists>codes. cut_nbins x n = Inr codes \<and> length codes = length x \<and> None \<notin> set codes"
proof -
  define vs where "vs = dropna x"
  define edges where "edges = nbins_to_bins (Min (set vs)) (Max (set vs)) (nat n)"
  have vs: "vs \<noteq> []" using assms(1,2) by (simp add: vs_def dropna_all_numbers)
  then have "Min (set vs) \<le> Max (set vs)" by simp
  moreover have "0 < nat n" using assms(3) by simp
  ultimately have e: "distinct edges" "edges \<noteq> []" "hd edges < Min (set vs)"
    "\<exists>hi \<in> set edges. Max (set vs) \<le> hi"
    using nbins_to_bins_edges [of "Min (set vs)" "Max (set vs)" "nat n"] by (auto simp: edges_def)
  then obtain hi where hi: "hi \<in> set edges" "Max (set vs) \<le> hi" by blast
  have cut: "cut_nbins x n = Inr (map (bin_code edges False) x)"
    using assms vs e(1) by (simp add: cut_nbins_def bins_to_cuts_def Let_def vs_def edges_def unique_distinct)
  have defined: "bin_code edges False c \<noteq> None" if "c \<in> set x" for c
  proof -
    from that assms(2) have "c \<noteq> None" by metis
    then obtain v where c: "c = Some v" by auto
    with that have v: "v \<in> set vs" by (simp add: vs_def dropna_mem)
    then have "Min (set vs) \<le> v" "v \<le> Max (set vs)" by simp_all
    with e(3) hi(2) have "hd edges < v" "\<not> hi < v" by simp_all
    with e(2) hi(1) have "0 < searchsorted_left edges v" "searchsorted_left edges v < length edges"
      by (simp_all add: searchsorted_left_pos searchsorted_left_less)
    with c show ?thesis by (simp add: bin_code_def Let_def)
  qed
  have "None \<notin> set (map (bin_code edges False) x)"
  proof
    assume "None \<in> set (map (bin_code edges False) x)"
    then obtain c where "c \<in> set x" "None = bin_code edges False c" by auto
    with defined show False by metis
  qed
  with cut show ?thesis by simp
qed

lemma cut_nbins_no_number:
  assumes "set x \<subseteq> {None}" and "n \<noteq> 1"
  shows "\<exists>e. cut_nbins x n = Inl e"
proof -
  have "dropna x = []" using assms(1) by (induction x rule: dropna.induct) auto
  with assms(2) show ?thesis by (simp add: cut_nbins_def Let_def)
qed

section \<open>The scores of \<open>segment_rfm\<close>\<close>

lemma rank_first_length: "length (rank_first xs) = length xs"
  by (simp add: rank_first_def)

lemma rank_first_numbers: "None \<notin> set xs \<Longrightarrow> None \<notin> set (rank_first xs)"
  by (auto simp: rank_first_def in_set_conv_nth split: option.splits)

lemma qcut_all_numbers:
  assumes "qcut x q = Inr codes" and "None \<notin> set x"
  shows "set codes \<subseteq> {None} \<and> q \<noteq> 1 \<or> None \<notin> set codes"
proof -
  from qcut_codes [OF assms(1)] have len: "length codes = length x" and
    alt: "(\<forall>i < length x. codes ! i = None) \<and> q \<noteq> 1 \<or>
          (\<forall>i < length x. x ! i \<noteq> None \<longrightarrow> codes ! i \<noteq> None)"
    by blast+
  from alt show ?thesis
  proof
    assume "(\<forall>i < length x. codes ! i = None) \<and> q \<noteq> 1"
    with len show ?thesis by (auto simp: in_set_conv_nth)
  next
    assume "\<forall>i < length x. x ! i \<noteq> None \<longrightarrow> codes ! i \<noteq> None"
    with assms(2) len have "None \<notin> set codes" by (metis in_set_conv_nth nth_mem)
    then show ?thesis ..
  qed
qed

lemma add_scores_None_left: "set a \<subseteq> {None} \<Longrightarrow> set (map2 add_scores a b) \<subseteq> {None}"
  by (auto dest!: set_zip_leftD)

lemma add_scores_None_right: "set b \<subseteq> {None} \<Longrightarrow> set (map2 add_scores a b) \<subseteq> {None}"
proof
  fix c assume b: "set b \<subseteq> {None}" and "c \<in> set (map2 add_scores a b)"
  then obtain u v where "(u, v) \<in> set (zip a b)" "c = add_scores u v" by auto
  with b have "v = None" by (auto dest: set_zip_rightD)
  with \<open>c = add_scores u v\<close> show "c \<in> {None}" by (cases u) auto
qed

lemma add_scores_numbers:
  "None \<notin> set a \<Longrightarrow> None \<notin> set b \<Longrightarrow> None \<notin> set (map2 add_scores a b)"
proof
  assume a: "None \<notin> set a" and b: "None \<notin> set b" and "None \<in> set (map2 add_scores a b)"
  then obtain u v where uv: "(u, v) \<in> set (zip a b)" "add_scores u v = None" by auto
  from uv(1) have "u \<in> set a" "v \<in> set b" by (auto dest: set_zip_leftD set_zip_rightD)
  with a b have "u \<noteq> None" "v \<noteq> None" by metis+
  with uv(2) show False by auto
qed
lemma segment_rfm_unfold:
  assumes "segment_rfm df r_col f_col m_col n = Inr labels"
  shows "\<exists>r f m rq fq mq bins.
           getitem_numeric df r_col = Inr r \<and> getitem_numeric df f_col = Inr f \<and>
           getitem_numeric df m_col = Inr m \<and>
           qcut r n = Inr rq \<and> qcut (rank_first f) n = Inr fq \<and> qcut (rank_first m) n = Inr mq \<and>
           r_scores df r_col n = Inr (map (map_option (\<lambda>b. n - 1 - b)) rq) \<and>
           cut_nbins (map (map_option real_of_int)
             (map2 add_scores (map2 add_scores (map (map_option (\<lambda>b. n - 1 - b)) rq) fq) mq)) n
             = Inr bins \<and>
           segment_bins df r_col f_col m_col n = Inr bins \<and> labels = map segment_label bins"
  using assms
  by (auto simp: segment_rfm_def segment_bins_def rfm_scores_def r_scores_def fm_scores_def
      split: sum.splits)

lemma map_option_all_None: "set xs \<subseteq> {None} \<Longrightarrow> set (map (map_option g) xs) \<subseteq> {None}"
  by auto

lemma map_option_numbers: "None \<notin> set xs \<Longrightarrow> None \<notin> set (map (map_option g) xs)"
  by auto

text \<open>When one of the three scores is NaN on every row, the final \<open>cut\<close> raises.\<close>

lemma cut_nbins_rfm_no_number:
  assumes "set rs \<subseteq> {None} \<or> set fq \<subseteq> {None} \<or> set mq \<subseteq> {None}" and "n \<noteq> 1"
  shows "\<exists>e. cut_nbins (map (map_option real_of_int)
            (map2 add_scores (map2 add_scores rs fq) mq)) n = Inl e"
proof -
  have "set (map2 add_scores (map2 add_scores rs fq) mq) \<subseteq> {None}"
    using assms(1) add_scores_None_left [of rs fq] add_scores_None_right [of fq rs]
      add_scores_None_left [of "map2 add_scores rs fq" mq]
      add_scores_None_right [of mq "map2 add_scores rs fq"]
    by blast
  then have "set (map (map_option real_of_int) (map2 add_scores (map2 add_scores rs fq) mq)) \<subseteq> {None}"
    by (rule map_option_all_None)
  then show ?thesis using assms(2) by (rule cut_nbins_no_number)
qed

text \<open>
  C4: whenever \<open>segment_rfm\<close> returns, two rows whose recency values are numbers
  \<open>va \<le> vb\<close> both have a recency score, and the score of the row with the smaller
  (more recent) value is at least the score of the other.
\<close>

theorem recency_score_antimono:
  assumes "segment_rfm df r_col f_col m_col n = Inr labels"
    and "getitem_numeric df r_col = Inr recency"
    and "a < length recency" and "b < length recency"
    and "recency ! a = Some va" and "recency ! b = Some vb" and "va \<le> vb"
  shows "\<exists>r_score sa sb. r_scores df r_col n = Inr r_score \<and>
           r_score ! a = Some sa \<and> r_score ! b = Some sb \<and> sb \<le> sa"
proof -
  from segment_rfm_unfold [OF assms(1)] assms(2) obtain rq fq mq bins where
    rq: "qcut recency n = Inr rq" and
    rs: "r_scores df r_col n = Inr (map (map_option (\<lambda>b. n - 1 - b)) rq)" and
    cut: "cut_nbins (map (map_option real_of_int)
             (map2 add_scores (map2 add_scores (map (map_option (\<lambda>b. n - 1 - b)) rq) fq) mq)) n
             = Inr bins"
    by auto
  from qcut_codes [OF rq] have len: "length rq = length recency" and
    alt: "(\<forall>i < length recency. rq ! i = None) \<and> n \<noteq> 1 \<or>
          (\<forall>i < length recency. recency ! i \<noteq> None \<longrightarrow> rq ! i \<noteq> None)" and
    mono: "\<forall>i < length recency. \<forall>j < length recency. \<forall>v w a b.
            recency ! i = Some v \<and> recency ! j = Some w \<and> v \<le> w \<and>
            rq ! i = Some a \<and> rq ! j = Some b \<longrightarrow> a \<le> b"
    by blast+
  have "\<not> ((\<forall>i < length recency. rq ! i = None) \<and> n \<noteq> 1)"
  proof
    assume h: "(\<forall>i < length recency. rq ! i = None) \<and> n \<noteq> 1"
    with len have "set rq \<subseteq> {None}" by (auto simp: in_set_conv_nth)
    then have "set (map (map_option (\<lambda>b. n - 1 - b)) rq) \<subseteq> {None}" by (rule map_option_all_None)
    then have "set (map (map_option (\<lambda>b. n - 1 - b)) rq) \<subseteq> {None} \<or> set fq \<subseteq> {None} \<or>
        set mq \<subseteq> {None}" by (rule disjI1)
    from cut_nbins_rfm_no_number [OF this] h obtain e where
      "cut_nbins (map (map_option real_of_int)
         (map2 add_scores (map2 add_scores (map (map_option (\<lambda>b. n - 1 - b)) rq) fq) mq)) n = Inl e"
      by blast
    with cut show False by simp
  qed
  with alt have "\<forall>i < length recency. recency ! i \<noteq> None \<longrightarrow> rq ! i \<noteq> None" by blast
  with assms(3-6) have "rq ! a \<noteq> None" "rq ! b \<noteq> None" by simp_all
  then obtain ca cb where c: "rq ! a = Some ca" "rq ! b = Some cb" by auto
  with mono assms(3-7) have "ca \<le> cb" by blast
  with c len assms(3,4) rs show ?thesis by simp
qed

theorem recency_score_antimono_witness:
  "\<exists>r_score sa sb. r_scores rfm_example ''recency'' 4 = Inr r_score \<and>
           r_score ! 0 = Some sa \<and> r_score ! 3 = Some sb \<and> sb \<le> sa"
proof -
  have s: "segment_rfm rfm_example ''recency'' ''frequency'' ''monetary'' 4 =
      Inr [''Loyal Customer'', ''Potential Loyalist'', ''At Risk'', ''Lost'']"
    by (simp add: rfm_example_def rfm_eval_defs)
  have g: "getitem_numeric rfm_example ''recency'' = Inr [Some 1, Some 5, Some 10, Some 50]"
    by (simp add: rfm_example_def getitem_numeric_def)
  show ?thesis
    using recency_score_antimono [OF s g, of 0 3 1 50] by simp
qed

text \<open>
  C3: when the three RFM columns have no missing value and \<open>segment_rfm\<close> returns, no
  row is labelled \<open>Other\<close>: every row has a final bin index, and every index of 4 or
  more is labelled \<open>Champion\<close>.  This holds for every \<open>n_segments\<close>, in particular from
  2 on.
\<close>

theorem no_other_without_missing:
  assumes "segment_rfm df r_col f_col m_col n = Inr labels"
    and "getitem_numeric df r_col = Inr r" and "None \<notin> set r"
    and "getitem_numeric df f_col = Inr f" and "None \<notin> set f"
    and "getitem_numeric df m_col = Inr m" and "None \<notin> set m"
  shows "''Other'' \<notin> set labels \<and>
         (\<exists>bins. segment_bins df r_col f_col m_col n = Inr bins \<and> length bins = length labels \<and>
            (\<forall>i < length bins. \<exists>b. bins ! i = Some b \<and> 0 \<le> b \<and>
               (4 \<le> b \<longrightarrow> labels ! i = ''Champion'')))"
proof -
  from segment_rfm_unfold [OF assms(1)] assms(2,4,6) obtain rq fq mq bins where
    rq: "qcut r n = Inr rq" and fq: "qcut (rank_first f) n = Inr fq" and
    mq: "qcut (rank_first m) n = Inr mq" and
    cut: "cut_nbins (map (map_option real_of_int)
             (map2 add_scores (map2 add_scores (map (map_option (\<lambda>b. n - 1 - b)) rq) fq) mq)) n
             = Inr bins" and
    bins: "segment_bins df r_col f_col m_col n = Inr bins" and
    labels: "labels = map segment_label bins"
    by auto
  define rs where "rs = map (map_option (\<lambda>b. n - 1 - b)) rq"
  define x where "x = map (map_option real_of_int) (map2 add_scores (map2 add_scores rs fq) mq)"
  have cutx: "cut_nbins x n = Inr bins" using cut by (simp add: x_def rs_def)
  have no_raise: "\<not> ((set rs \<subseteq> {None} \<or> set fq \<subseteq> {None} \<or> set mq \<subseteq> {None}) \<and> n \<noteq> 1)"
    using cut_nbins_rfm_no_number [of rs fq mq n] cutx by (auto simp: x_def)
  have r_ok: "None \<notin> set rs"
    using qcut_all_numbers [OF rq assms(3)] no_raise map_option_all_None [of rq]
    by (auto simp: rs_def)
  have f_ok: "None \<notin> set fq"
    using qcut_all_numbers [OF fq rank_first_numbers [OF assms(5)]] no_raise by auto
  have m_ok: "None \<notin> set mq"
    using qcut_all_numbers [OF mq rank_first_numbers [OF assms(7)]] no_raise by auto
  have "None \<notin> set (map2 add_scores (map2 add_scores rs fq) mq)"
    by (intro add_scores_numbers r_ok f_ok m_ok)
  then have xn: "None \<notin> set x" unfolding x_def by (rule map_option_numbers)
  have xne: "x \<noteq> []" using cutx by (auto simp: cut_nbins_def split: if_splits)
  have n1: "1 \<le> n" using cutx by (auto simp: cut_nbins_def split: if_splits)
  from cut_nbins_all_numbers [OF xne xn n1] cutx have all: "None \<notin> set bins" by auto
  have each: "\<exists>b. bins ! i = Some b \<and> 0 \<le> b \<and> (4 \<le> b \<longrightarrow> labels ! i = ''Champion'')"
    if "i < length bins" for i
  proof -
    from all that have "bins ! i \<noteq> None" by (metis nth_mem)
    then obtain b where b: "bins ! i = Some b" by auto
    from cut_nbins_range [OF cutx that b] have "0 \<le> b" by simp
    with b that labels show ?thesis by (simp add: segment_label_Some)
  qed
  have "''Other'' \<notin> set labels"
  proof
    assume "''Other'' \<in> set labels"
    then obtain i where i: "i < length bins" "segment_label (bins ! i) = ''Other''"
      unfolding labels by (auto simp: in_set_conv_nth)
    from each [OF i(1)] obtain b where "bins ! i = Some b" "0 \<le> b" by blast
    with i(2) show False by (simp add: segment_label_Some split: if_splits)
  qed
  with bins labels each show ?thesis by simp
qed

theorem no_other_without_missing_witness:
  "''Other'' \<notin> set [''Lost'', ''Champion''] \<and>
   (\<exists>bins. segment_bins six_tier_example ''r'' ''f'' ''m'' 6 = Inr bins \<and> length bins = 2)"
proof -
  have s: "segment_rfm six_tier_example ''r'' ''f'' ''m'' 6 = Inr [''Lost'', ''Champion'']"
    by (simp add: six_tier_example_def rfm_eval_defs)
  have g: "getitem_numeric six_tier_example ''r'' = Inr [Some 2, Some 1]"
    "getitem_numeric six_tier_example ''f'' = Inr [Some 1, Some 2]"
    "getitem_numeric six_tier_example ''m'' = Inr [Some 1, Some 2]"
    by (simp_all add: six_tier_example_def getitem_numeric_def)
  have n: "None \<notin> set [Some (2::real), Some 1]" "None \<notin> set [Some (1::real), Some 2]"
    by simp_all
  from no_other_without_missing [OF s g(1) n(1) g(2) n(2) g(3) n(2)] show ?thesis by auto
qed
section \<open>The selection of the strongest correlation\<close>

lemma insert_desc_hd:
  "hd (insert_desc key x ys) =
     (if ys \<noteq> [] \<and> float_lt (key x) (key (hd ys)) then hd ys else x)"
  by (cases ys) auto

lemma sort_reverse_Cons: "sort_reverse key (x # xs) = insert_desc key x (sort_reverse key xs)"
  by (simp add: sort_reverse_def)

lemma insert_desc_not_Nil: "insert_desc key x ys \<noteq> []"
  by (cases ys) auto

lemma sort_reverse_Nil_iff: "sort_reverse key xs = [] \<longleftrightarrow> xs = []"
  by (cases xs) (auto simp: sort_reverse_def insert_desc_not_Nil)

text \<open>
  When every key is a number, the head of the sorted list is the first element of the
  list, in its own order, whose key is greatest.
\<close>

lemma sort_reverse_first_max:
  assumes "xs \<noteq> []" and "\<forall>x \<in> set xs. key x \<noteq> None"
  shows "\<exists>i < length xs. hd (sort_reverse key xs) = xs ! i \<and>
           (\<forall>j < length xs. \<not> float_lt (key (xs ! i)) (key (xs ! j))) \<and>
           (\<forall>j < i. float_lt (key (xs ! j)) (key (xs ! i)))"
  using assms
proof (induction xs)
  case Nil
  then show ?case by simp
next
  case (Cons x xs)
  show ?case
  proof (cases "xs = []")
    case True
    then show ?thesis by (cases "key x") (auto simp: sort_reverse_def)
  next
    case False
    with Cons obtain i where i: "i < length xs" "hd (sort_reverse key xs) = xs ! i"
      "\<forall>j < length xs. \<not> float_lt (key (xs ! i)) (key (xs ! j))"
      "\<forall>j < i. float_lt (key (xs ! j)) (key (xs ! i))"
      by auto
    from Cons.prems obtain kx where kx: "key x = Some kx" by auto
    from Cons.prems i(1) obtain ki where ki: "key (xs ! i) = Some ki" by fastforce
    have num: "\<exists>k. key (xs ! j) = Some k" if "j < length xs" for j
      using Cons.prems that by fastforce
    have ne: "sort_reverse key xs \<noteq> []" using False by (simp add: sort_reverse_Nil_iff)
    show ?thesis
    proof (cases "kx < ki")
      case True
      with kx ki i(2) ne have "hd (sort_reverse key (x # xs)) = (x # xs) ! Suc i"
        by (simp add: sort_reverse_Cons insert_desc_hd)
      moreover have "\<forall>j < length (x # xs). \<not> float_lt (key ((x # xs) ! Suc i)) (key ((x # xs) ! j))"
        using i(3) kx ki True by (auto simp: nth_Cons split: nat.splits)
      moreover have "\<forall>j < Suc i. float_lt (key ((x # xs) ! j)) (key ((x # xs) ! Suc i))"
        using i(4) kx ki True by (auto simp: nth_Cons less_Suc_eq_0_disj split: nat.splits)
      ultimately show ?thesis using i(1) by (intro exI [of _ "Suc i"]) simp
    next
      case False
      with kx ki i(2) ne have "hd (sort_reverse key (x # xs)) = (x # xs) ! 0"
        by (simp add: sort_reverse_Cons insert_desc_hd)
      moreover have "\<not> float_lt (key x) (key ((x # xs) ! j))" if "j < length (x # xs)" for j
      proof (cases j)
        case 0
        then show ?thesis using kx by simp
      next
        case (Suc j')
        with that have j': "j' < length xs" by simp
        from num [OF j'] obtain k where k: "key (xs ! j') = Some k" by blast
        with i(3) j' ki have "\<not> ki < k" by fastforce
        with False k kx Suc show ?thesis by simp
      qed
      ultimately show ?thesis by (intro exI [of _ 0]) simp
    qed
  qed
qed

text \<open>
  C5 fails on the code when a coefficient is NaN.  On \<open>tie_example\<close> the pairs
  (A, D) and (B, D) tie for the greatest absolute coefficient; every comparison of the
  sort has a NaN key on one side and is false, so the list stays in enumeration order
  and the insight reports (A, B), whose coefficient is smaller.
\<close>

theorem tie_example_reports_weaker_pair:
  "pearson 1 [Some 1, Some 2, Some 3, Some 4, Some 5] [Some 3, Some 3, Some 7, Some 7, Some 10]
     = Some (18 / sqrt 360) \<and>
   pearson 1 [Some 2, Some 1, Some 4, Some 3, Some 5] [Some 3, Some 3, Some 7, Some 7, Some 10]
     = Some (18 / sqrt 360) \<and>
   4 / 5 < 18 / sqrt 360 \<and>
   (\<exists>insights. generate_insights tie_example = Inr insights \<and>
      last insights = StrongCorrelation ''positive'' (Str ''A'') (Str ''B'') (4 / 5))"
proof -
  have p: "pearson 1 [Some 1, Some 2, Some 3, Some 4, Some 5]
             [Some 3, Some 3, Some 7, Some 7, Some 10] = Some (18 / sqrt 360)"
    "pearson 1 [Some 2, Some 1, Some 4, Some 3, Some 5]
             [Some 3, Some 3, Some 7, Some 7, Some 10] = Some (18 / sqrt 360)"
    by (simp_all add: pearson_def dev_sum_def Let_def)
  have "sqrt 360 < sqrt (20\<^sup>2)" by (rule real_sqrt_less_mono) simp
  then have "sqrt 360 < 20" by simp
  then have lt: "4 / 5 < 18 / sqrt 360" by (simp add: field_simps)
  have c: "correlation tie_example 1 =
      Inr \<lparr>corr_columns = [Str ''A'', Str ''B'', Str ''C'', Str ''D''],
           corr_values =
             [[Some 1, Some (4 / 5), None, Some (18 / sqrt 360)],
              [Some (4 / 5), Some 1, None, Some (18 / sqrt 360)],
              [None, None, None, None],
              [Some (18 / sqrt 360), Some (18 / sqrt 360), None, Some 1]]\<rparr>"
    by (simp add: correlation_def frame_empty_def tie_example_def pearson_def dev_sum_def Let_def)
  have s: "length (select_numeric tie_example) = 4" by (simp add: tie_example_def)
  have i: "correlation_insight (corr_pairs
      \<lparr>corr_columns = [Str ''A'', Str ''B'', Str ''C'', Str ''D''],
           corr_values =
             [[Some 1, Some (4 / 5), None, Some (18 / sqrt 360)],
              [Some (4 / 5), Some 1, None, Some (18 / sqrt 360)],
              [None, None, None, None],
              [Some (18 / sqrt 360), Some (18 / sqrt 360), None, Some 1]]\<rparr>) =
      [StrongCorrelation ''positive'' (Str ''A'') (Str ''B'') (4 / 5)]"
    by (simp add: correlation_insight_def corr_pairs_def sort_reverse_def upt_rec)
  have "\<forall>l \<in> set (map fst tie_example). is_str l" by (simp add: tie_example_def)
  from profile_returns [OF this] obtain pr where pr: "profile tie_example = Inr pr" by blast
  have "distinct (map fst tie_example)" by (simp add: tie_example_def)
  from numeric_loop_returns [OF this] obtain numeric where
    n: "numeric_loop tie_example (take 3 (select_numeric tie_example)) = Inr numeric" by blast
  have "\<exists>insights. generate_insights tie_example = Inr insights \<and>
      last insights = StrongCorrelation ''positive'' (Str ''A'') (Str ''B'') (4 / 5)"
    unfolding generate_insights_def Let_def pr n c by (simp add: i s)
  with p lt show ?thesis by blast
qed

text \<open>
  With coefficients that are all numbers the reported pair is the first pair, in
  enumeration order, whose absolute coefficient is greatest.
\<close>

lemma correlation_insight_first_max:
  assumes "\<forall>p \<in> set pairs. fst p \<noteq> None"
    and "correlation_insight pairs = [StrongCorrelation d a b r]"
  shows "\<exists>i < length pairs. pairs ! i = (Some r, a, b) \<and>
           (\<forall>j < length pairs. \<forall>r'. fst (pairs ! j) = Some r' \<longrightarrow> \<bar>r'\<bar> \<le> \<bar>r\<bar>) \<and>
           (\<forall>j < i. \<forall>r'. fst (pairs ! j) = Some r' \<longrightarrow> \<bar>r'\<bar> < \<bar>r\<bar>)"
proof -
  define key where "key = (\<lambda>x :: cell \<times> label \<times> label. map_option abs (fst x))"
  have ne: "pairs \<noteq> []" using assms(2) by (auto simp: correlation_insight_def sort_reverse_def)
  have keys: "\<forall>x \<in> set pairs. key x \<noteq> None" using assms(1) by (simp add: key_def)
  from sort_reverse_first_max [OF ne keys] obtain i where i: "i < length pairs"
    "hd (sort_reverse key pairs) = pairs ! i"
    "\<forall>j < length pairs. \<not> float_lt (key (pairs ! i)) (key (pairs ! j))"
    "\<forall>j < i. float_lt (key (pairs ! j)) (key (pairs ! i))"
    by blast
  have "sort_reverse key pairs \<noteq> []" using ne by (simp add: sort_reverse_Nil_iff)
  then obtain rest where sorted: "sort_reverse key pairs = pairs ! i # rest"
    using i(2) by (cases "sort_reverse key pairs") auto
  have top: "pairs ! i = (Some r, a, b)"
    using assms(2) sorted unfolding correlation_insight_def key_def [symmetric]
    by (auto split: prod.splits option.splits if_splits)
  have "\<bar>r'\<bar> \<le> \<bar>r\<bar>" if "j < length pairs" "fst (pairs ! j) = Some r'" for j r'
    using i(3) that top by (auto simp: key_def dest!: spec [of _ j])
  moreover have "\<bar>r'\<bar> < \<bar>r\<bar>" if "j < i" "fst (pairs ! j) = Some r'" for j r'
    using i(4) that top by (auto simp: key_def dest!: spec [of _ j])
  ultimately show ?thesis using i(1) top by blast
qed

section \<open>The coefficient of variation under scaling, in exact arithmetic\<close>

text \<open>
  Over the reals the mean and the standard deviation of a column both scale with a
  positive constant, so their quotient does not change.  The code computes in doubles,
  where the scaled values are rounded again and can overflow: these lemmas are about the
  exact values and say nothing about the decision \<open>cv > 50\<close> that the code takes in
  doubles.
\<close>

lemma dropna_scale_cells: "dropna (scale_cells c xs) = map (\<lambda>v. c * v) (dropna xs)"
  by (induction xs rule: dropna.induct) (auto simp: scale_cells_def)

lemma sum_list_scale: "sum_list (map (\<lambda>v. c * v) vs) = c * sum_list vs" for c :: real
  by (induction vs) (auto simp: algebra_simps)

lemma dev_sum_scale: "dev_sum (map (\<lambda>v. c * v) vs) (c * m) 2 = c\<^sup>2 * dev_sum vs m 2"
  by (induction vs) (auto simp: dev_sum_def power2_eq_square algebra_simps)

lemma mean_scale_cells: "mean (scale_cells c xs) = map_option (\<lambda>v. c * v) (mean xs)"
  by (simp add: mean_def dropna_scale_cells sum_list_scale Let_def)

lemma std_scale_cells:
  assumes "0 < c"
  shows "std (scale_cells c xs) = map_option (\<lambda>v. c * v) (std xs)"
proof (cases "length (dropna xs) < 2")
  case True
  then show ?thesis by (simp add: std_def dropna_scale_cells Let_def)
next
  case False
  define n where "n = length (dropna xs)"
  define m where "m = sum_list (dropna xs) / real n"
  have "sqrt (c\<^sup>2 * dev_sum (dropna xs) m 2 / real (n - 1)) =
        c * sqrt (dev_sum (dropna xs) m 2 / real (n - 1))"
    using assms by (simp add: real_sqrt_mult real_sqrt_divide)
  moreover have "dev_sum (map (\<lambda>v. c * v) (dropna xs)) (c * sum_list (dropna xs) / real n) 2 =
      c\<^sup>2 * dev_sum (dropna xs) m 2"
    using dev_sum_scale [of c "dropna xs" m] by (simp add: m_def)
  ultimately show ?thesis
    using False by (simp add: std_def dropna_scale_cells sum_list_scale Let_def n_def m_def)
qed

lemma coefficient_of_variation_scale:
  assumes "0 < c"
  shows "coefficient_of_variation (std (scale_cells c xs)) (mean (scale_cells c xs)) =
         coefficient_of_variation (std xs) (mean xs)"
  using assms
  by (cases "std xs"; cases "mean xs")
     (auto simp: coefficient_of_variation_def std_scale_cells mean_scale_cells)

end
